theory Spec2Isabelle
  imports Main "HOL-Library.Sublist" "HOL-Library.Multiset"
begin

section \<open>Python strings\<close>

text \<open>
  A Python \<open>str\<close> is a \<open>string\<close> (a list of characters). The string methods the script
  calls are written out. \<open>str.lower\<close> is modelled on the ASCII letters \<open>A\<close>..\<open>Z\<close> and
  \<open>str.strip\<close> on the ASCII characters for which \<open>str.isspace\<close> holds.
\<close>

definition lower_char :: "char \<Rightarrow> char" where
  "lower_char c =
     (if 65 \<le> (of_char c :: nat) \<and> (of_char c :: nat) \<le> 90
      then char_of ((of_char c :: nat) + 32) else c)"

definition lower :: "string \<Rightarrow> string" where
  "lower s = map lower_char s"

definition isspace :: "char \<Rightarrow> bool" where
  "isspace c =
     ((9 \<le> (of_char c :: nat) \<and> (of_char c :: nat) \<le> 13)
      \<or> (28 \<le> (of_char c :: nat) \<and> (of_char c :: nat) \<le> 32))"

definition strip :: "string \<Rightarrow> string" where
  "strip s = rev (dropWhile isspace (rev (dropWhile isspace s)))"

text \<open>\<open>s.startswith(p)\<close>\<close>

definition startswith :: "string \<Rightarrow> string \<Rightarrow> bool" where
  "startswith s p = prefix p s"

text \<open>\<open>sub in s\<close> on strings: \<open>sub\<close> occurs in \<open>s\<close> as a contiguous run.\<close>

fun str_in :: "string \<Rightarrow> string \<Rightarrow> bool" where
  "str_in sub [] = (sub = [])"
| "str_in sub (c # s) = (prefix sub (c # s) \<or> str_in sub s)"

text \<open>\<open>s.split(sep)\<close> and \<open>s.split(sep, maxsplit)\<close> for a one-character separator.\<close>

definition cons_first :: "char \<Rightarrow> string list \<Rightarrow> string list" where
  "cons_first x yss = (case yss of [] \<Rightarrow> [[x]] | y # ys \<Rightarrow> (x # y) # ys)"

fun split :: "char \<Rightarrow> string \<Rightarrow> string list" where
  "split sep [] = [[]]"
| "split sep (x # xs) =
     (if x = sep then [] # split sep xs else cons_first x (split sep xs))"

fun split_max :: "char \<Rightarrow> nat \<Rightarrow> string \<Rightarrow> string list" where
  "split_max sep 0 s = [s]"
| "split_max sep (Suc n) [] = [[]]"
| "split_max sep (Suc n) (x # xs) =
     (if x = sep then [] # split_max sep n xs
      else cons_first x (split_max sep (Suc n) xs))"

text \<open>Truth value of an optional string: \<open>None\<close> and \<open>""\<close> are false.\<close>

fun truthy :: "string option \<Rightarrow> bool" where
  "truthy None = False"
| "truthy (Some s) = (s \<noteq> [])"

section \<open>Data\<close>

text \<open>
  A dict with the keys \<open>Key\<close> and \<open>Value\<close>; a field is \<open>None\<close> when the dict has no
  such key (a resource tag) or when the CSV reader filled a short row with \<open>None\<close>
  (a rule). A rule dict has the key \<open>Partial\<close> as well.
\<close>

record tag =
  Key :: "string option"
  Value :: "string option"

record rule = tag +
  Partial :: bool

record resource =
  Arn :: "string option"
  Service :: "string option"
  ResourceType :: "string option"
  Tags :: "tag list"

text \<open>
  \<open>tag_rules\<close>: a \<open>defaultdict(list)\<close>. Python dicts keep insertion order, so it is an
  association list; \<open>items()\<close> is the list itself.
\<close>

type_synonym tag_rules = "(string \<times> rule list) list"

definition rules_get :: "tag_rules \<Rightarrow> string \<Rightarrow> rule list" where
  "rules_get d k = (case map_of d k of None \<Rightarrow> [] | Some rs \<Rightarrow> rs)"

fun rules_append :: "tag_rules \<Rightarrow> string \<Rightarrow> rule \<Rightarrow> tag_rules" where
  "rules_append [] k r = [(k, [r])]"
| "rules_append ((k', rs) # d) k r =
     (if k' = k then (k', rs @ [r]) # d else (k', rs) # rules_append d k r)"

datatype py_error =
    IndexError
  | KeyError string
  | AttributeError
  | SystemExit nat

section \<open>get\_match\_keys, get\_resource\_name\<close>

text \<open>
  A Python \<open>set\<close> of strings is modelled by the list of its elements without repetition,
  in insertion order. The order in which a \<open>for\<close> loop visits the set is not the
  insertion order: it is decided by the string hashes, which differ from one interpreter
  process to the next. Where the script iterates the set, the model takes that order as a
  parameter.
\<close>

definition set_add :: "string list \<Rightarrow> string \<Rightarrow> string list" where
  "set_add ks k = (if k \<in> set ks then ks else ks @ [k])"

definition get_match_keys ::
  "string \<Rightarrow> string option \<Rightarrow> string option \<Rightarrow> string option \<Rightarrow> string list" where
  "get_match_keys service subtype arn name =
     (let keys = [];
          keys = (if truthy arn then set_add keys (the arn) else keys);
          keys = (if truthy name then set_add keys (the name) else keys);
          keys = (if truthy subtype then
                    (let subtype' = lower (the subtype) in
                     if CHR '':'' \<in> set subtype' then set_add keys subtype'
                     else set_add keys (lower service @ '':'' @ subtype'))
                  else keys)
      in set_add keys (lower service))"

fun get_resource_name :: "tag list \<Rightarrow> string option" where
  "get_resource_name [] = None"
| "get_resource_name (t # ts) =
     (if Key t = Some ''Name'' then Value t else get_resource_name ts)"

section \<open>write\_plan\<close>

text \<open>An emitted tag is a fresh dict with the rule's \<open>Key\<close> and \<open>Value\<close>.\<close>

definition tag_of :: "rule \<Rightarrow> tag" where
  "tag_of r = \<lparr>Key = Key r, Value = Value r\<rparr>"

text \<open>\<open>tag.get("Key", "")\<close>\<close>

definition get_or_empty :: "string option \<Rightarrow> string" where
  "get_or_empty v = (case v of None \<Rightarrow> [] | Some s \<Rightarrow> s)"

text \<open>
  Exact matches (lines 189-192). \<open>key_order\<close> is the order in which the loop visits the
  set \<open>match_keys\<close>.
\<close>

definition exact_tags ::
  "(string list \<Rightarrow> string list) \<Rightarrow> tag_rules \<Rightarrow> string list \<Rightarrow> tag list" where
  "exact_tags key_order tag_rules match_keys =
     concat (map (\<lambda>key. map tag_of (filter (\<lambda>r. \<not> Partial r) (rules_get tag_rules key)))
                 (key_order match_keys))"

text \<open>Partial matches for Name (lines 194-198).\<close>

definition partial_tags :: "tag_rules \<Rightarrow> string option \<Rightarrow> tag list" where
  "partial_tags tag_rules name_value =
     (if truthy name_value then
        concat (map (\<lambda>(rule_key, rule_list).
                  map tag_of (filter (\<lambda>r. Partial r \<and> str_in rule_key (the name_value)) rule_list))
                tag_rules)
      else [])"

text \<open>Tag key/value filter (lines 200-225): one dict item against one resource tag.\<close>

definition tag_value_matches :: "string \<Rightarrow> string \<Rightarrow> bool" where
  "tag_value_matches tag_value resource_tag_value =
     (let partial = startswith tag_value ''~'';
          tag_value_filter = (if partial then tl tag_value else tag_value)
      in (partial \<and> str_in (lower tag_value_filter) (lower resource_tag_value))
         \<or> (\<not> partial \<and> lower resource_tag_value = lower tag_value_filter))"

definition tag_filter_tags :: "string \<Rightarrow> rule list \<Rightarrow> tag list \<Rightarrow> tag list" where
  "tag_filter_tags rule_key rule_list res_tags =
     (if startswith rule_key ''tag:'' then
        (let parts = split_max CHR '':'' 2 rule_key in
         if length parts = 3 then
           (let tag_key = parts ! 1; tag_value = parts ! 2 in
            concat (map (\<lambda>t.
              if lower (get_or_empty (Key t)) = lower tag_key
                 \<and> tag_value_matches tag_value (get_or_empty (Value t))
              then map tag_of rule_list else []) res_tags))
         else [])
      else [])"

definition tag_based_tags :: "tag_rules \<Rightarrow> tag list \<Rightarrow> tag list" where
  "tag_based_tags tag_rules res_tags =
     concat (map (\<lambda>(rule_key, rule_list). tag_filter_tags rule_key rule_list res_tags) tag_rules)"

text \<open>The list \<open>tags\<close> as it stands at line 227, before the catch-all rules are added.\<close>

definition specific_tags ::
  "(string list \<Rightarrow> string list) \<Rightarrow> tag_rules \<Rightarrow> string \<Rightarrow> string \<Rightarrow> resource \<Rightarrow> tag list" where
  "specific_tags key_order tag_rules arn service res =
     (let name_value = get_resource_name (Tags res);
          match_keys = get_match_keys service (ResourceType res) (Some arn) name_value
      in exact_tags key_order tag_rules match_keys
         @ partial_tags tag_rules name_value
         @ tag_based_tags tag_rules (Tags res))"

type_synonym row = "string \<times> string option \<times> string option"

datatype log_entry =
    SkipRegion string string
  | WroteTagPlan string "string option" "string option"
  | NoMatchingTags string string

text \<open>
  The state of the loop: the set \<open>written\<close>, the tuples passed to \<open>writer.writerow\<close> so
  far, in order (after the header row), and the log lines of \<open>write_plan\<close>.
\<close>

record plan_state =
  written :: "row set"
  out_rows :: "row list"
  log :: "log_entry list"

fun write_rows :: "string \<Rightarrow> tag list \<Rightarrow> plan_state \<Rightarrow> plan_state" where
  "write_rows arn [] st = st"
| "write_rows arn (t # ts) st =
     (let row = (arn, Key t, Value t) in
      if row \<notin> written st then
        write_rows arn ts
          (st\<lparr>written := insert row (written st),
              out_rows := out_rows st @ [row],
              log := log st @ [WroteTagPlan arn (Key t) (Value t)]\<rparr>)
      else write_rows arn ts st)"

text \<open>One iteration of the loop over \<open>resources\<close> (lines 175-238).\<close>

definition process_resource ::
  "(string list \<Rightarrow> string list) \<Rightarrow> tag_rules \<Rightarrow> string \<Rightarrow> plan_state \<Rightarrow> resource
     \<Rightarrow> py_error + plan_state" where
  "process_resource key_order tag_rules region_filter st res =
     (if \<not> truthy (Arn res) \<or> \<not> truthy (Service res) then Inr st
      else
        (let arn = the (Arn res); service = the (Service res);
             arn_parts = split CHR '':'' arn in
         if length arn_parts \<le> 3 then Inl IndexError
         else
           (let arn_region = arn_parts ! 3 in
            if arn_region \<noteq> [] \<and> arn_region \<noteq> region_filter then
              Inr (st\<lparr>log := log st @ [SkipRegion arn arn_region]\<rparr>)
            else
              (let tags = specific_tags key_order tag_rules arn service res in
               if tags \<noteq> [] then
                 Inr (write_rows arn (tags @ map tag_of (rules_get tag_rules ''all'')) st)
               else Inr (st\<lparr>log := log st @ [NoMatchingTags arn service]\<rparr>)))))"

text \<open>
  The loop stops at the first exception; the rows written before it stay in the file.
\<close>

fun write_loop ::
  "(string list \<Rightarrow> string list) \<Rightarrow> tag_rules \<Rightarrow> string \<Rightarrow> resource list \<Rightarrow> plan_state
     \<Rightarrow> plan_state \<times> py_error option" where
  "write_loop key_order tag_rules region_filter [] st = (st, None)"
| "write_loop key_order tag_rules region_filter (res # resources) st =
     (case process_resource key_order tag_rules region_filter st res of
        Inl e \<Rightarrow> (st, Some e)
      | Inr st' \<Rightarrow> write_loop key_order tag_rules region_filter resources st')"

definition write_plan ::
  "(string list \<Rightarrow> string list) \<Rightarrow> resource list \<Rightarrow> tag_rules \<Rightarrow> string
     \<Rightarrow> plan_state \<times> py_error option" where
  "write_plan key_order resources tag_rules region_filter =
     write_loop key_order tag_rules region_filter resources
       \<lparr>written = {}, out_rows = [], log = []\<rparr>"

text \<open>
  The plan file as \<open>csv.reader\<close> would deliver it, one list of fields per line.
  \<open>csv.writer\<close> writes \<open>None\<close> as the empty field, so the tuples \<open>(arn, None, None)\<close>
  and \<open>(arn, "", "")\<close> are one and the same line of the file.
\<close>

definition csv_field :: "string option \<Rightarrow> string" where
  "csv_field v = (case v of None \<Rightarrow> [] | Some s \<Rightarrow> s)"

definition csv_row :: "row \<Rightarrow> string list" where
  "csv_row r = (case r of (arn, k, v) \<Rightarrow> [arn, csv_field k, csv_field v])"

definition plan_file :: "plan_state \<Rightarrow> string list list" where
  "plan_file st = [''ResourceARN'', ''TagKey'', ''TagValue''] # map csv_row (out_rows st)"

section \<open>load\_tag\_rules, main\<close>

text \<open>
  The rule file as \<open>csv.reader\<close> delivers it: one list of fields per line, the header
  line first, \<open>[]\<close> for a blank line. The file is taken to exist. \<open>csv.DictReader\<close>
  turns a line into a dict: the fields are paired with the header names, a name that has no
  field gets \<open>None\<close>, and of two equal names the later one wins.
\<close>

definition endswith :: "string \<Rightarrow> string \<Rightarrow> bool" where
  "endswith s p = suffix p s"

definition row_dict :: "string list \<Rightarrow> string list \<Rightarrow> (string \<rightharpoonup> string option)" where
  "row_dict fieldnames row =
     map_of (rev (zip fieldnames
                    (map Some row @ replicate (length fieldnames - length row) None)))"

fun load_rows :: "string list \<Rightarrow> string list list \<Rightarrow> tag_rules \<Rightarrow> py_error + tag_rules" where
  "load_rows fieldnames [] tag_map = Inr tag_map"
| "load_rows fieldnames (r # rows) tag_map =
     (if r = [] then load_rows fieldnames rows tag_map
      else
        (case row_dict fieldnames r ''Filter'' of
           None \<Rightarrow> Inl (KeyError ''Filter'')
         | Some None \<Rightarrow> Inl AttributeError
         | Some (Some f) \<Rightarrow>
             (let filter_value = strip f in
              if filter_value = [] \<or> startswith filter_value ''#''
              then load_rows fieldnames rows tag_map
              else
                (let partial = startswith filter_value ''~'';
                     filter_value = (if partial then tl filter_value else filter_value)
                 in case row_dict fieldnames r ''TagKey'' of
                      None \<Rightarrow> Inl (KeyError ''TagKey'')
                    | Some k \<Rightarrow>
                        (case row_dict fieldnames r ''TagValue'' of
                           None \<Rightarrow> Inl (KeyError ''TagValue'')
                         | Some v \<Rightarrow>
                             load_rows fieldnames rows
                               (rules_append tag_map (lower filter_value)
                                  \<lparr>Key = k, Value = v, Partial = partial\<rparr>))))))"

definition load_tag_rules :: "string \<Rightarrow> string list list \<Rightarrow> py_error + tag_rules" where
  "load_tag_rules path file =
     (if \<not> endswith path ''.csv'' then Inl (SystemExit 1)
      else (case file of [] \<Rightarrow> Inr [] | fieldnames # rows \<Rightarrow> load_rows fieldnames rows []))"

text \<open>
  \<open>main\<close> (lines 258-280). The collaborators are outside the model: what
  \<open>get_view_arn\<close> and \<open>get_tags_for_resources (get_all_resources \<dots>)\<close> return is given.
  The result is the list of calls made, in order, the rows of the plan file, and the
  exception that ended the run, if any.
\<close>

datatype call =
    GetAccountNumber
  | LoadTagRules
  | GetViewArn
  | GetAllResources
  | GetTagsForResources
  | WritePlan

definition main ::
  "(string list \<Rightarrow> string list) \<Rightarrow> string \<Rightarrow> string list list \<Rightarrow> string option
     \<Rightarrow> resource list \<Rightarrow> string \<Rightarrow> call list \<times> row list \<times> py_error option" where
  "main key_order tags_path file view_arn resources region =
     (case load_tag_rules tags_path file of
        Inl e \<Rightarrow> ([GetAccountNumber, LoadTagRules], [], Some e)
      | Inr tag_rules \<Rightarrow>
          (case view_arn of
             None \<Rightarrow> ([GetAccountNumber, LoadTagRules, GetViewArn], [], Some (SystemExit 1))
           | Some v \<Rightarrow>
               (let (st, err) = write_plan key_order resources tag_rules region in
                ([GetAccountNumber, LoadTagRules, GetViewArn, GetAllResources,
                  GetTagsForResources, WritePlan], out_rows st, err))))"

section \<open>Example inputs\<close>

definition ex_file :: "string list list" where
  "ex_file =
     [[''Filter'', ''TagKey'', ''TagValue''],
      [''# Lines beginning with # are skipped'', ''x'', ''y''],
      [''ec2:instance'', ''Backup'', ''Daily''],
      [],
      [''~web'', ''Application'', ''CRM''],
      [''tag:Environment:prod'', ''Tier'', ''Gold''],
      [''all'', ''Owner'', ''Team'']]"

definition ex_rules :: tag_rules where
  "ex_rules =
     [(''ec2:instance'', [\<lparr>Key = Some ''Backup'', Value = Some ''Daily'', Partial = False\<rparr>]),
      (''web'', [\<lparr>Key = Some ''Application'', Value = Some ''CRM'', Partial = True\<rparr>]),
      (''tag:environment:prod'', [\<lparr>Key = Some ''Tier'', Value = Some ''Gold'', Partial = False\<rparr>]),
      (''all'', [\<lparr>Key = Some ''Owner'', Value = Some ''Team'', Partial = False\<rparr>])]"

definition ex_instance :: resource where
  "ex_instance =
     \<lparr>Arn = Some ''arn:aws:ec2:us-west-2:123:instance/i-1'', Service = Some ''ec2'',
      ResourceType = Some ''ec2:instance'',
      Tags = [\<lparr>Key = Some ''Name'', Value = Some ''web-01''\<rparr>]\<rparr>"

definition ex_bucket :: resource where
  "ex_bucket =
     \<lparr>Arn = Some ''arn:aws:s3:::bucket1'', Service = Some ''s3'',
      ResourceType = Some ''s3:bucket'', Tags = []\<rparr>"

definition ex_other_region :: resource where
  "ex_other_region =
     \<lparr>Arn = Some ''arn:aws:ec2:eu-west-1:123:instance/i-2'', Service = Some ''ec2'',
      ResourceType = Some ''ec2:instance'', Tags = []\<rparr>"

definition ex_no_service :: resource where
  "ex_no_service =
     \<lparr>Arn = Some ''arn:aws:ec2:us-west-2:123:instance/i-3'', Service = None,
      ResourceType = Some ''ec2:instance'', Tags = []\<rparr>"

definition ex_short_arn :: resource where
  "ex_short_arn =
     \<lparr>Arn = Some ''i-0123456789'', Service = Some ''ec2'',
      ResourceType = Some ''ec2:instance'', Tags = []\<rparr>"

definition ex_no_service_eu :: resource where
  "ex_no_service_eu =
     \<lparr>Arn = Some ''arn:aws:ec2:eu-west-1:123:instance/i-4'', Service = None,
      ResourceType = Some ''ec2:instance'', Tags = []\<rparr>"

definition ex_prod_instance :: resource where
  "ex_prod_instance =
     \<lparr>Arn = Some ''arn:aws:ec2:us-west-2:123:instance/i-5'', Service = Some ''ec2'',
      ResourceType = Some ''instance'',
      Tags = [\<lparr>Key = Some ''Environment'', Value = Some ''PROD''\<rparr>]\<rparr>"

definition ex_short_rule_file :: "string list list" where
  "ex_short_rule_file =
     [[''Filter'', ''TagKey'', ''TagValue''], [''ec2''], [''ec2'', '''', '''']]"

definition ex_short_rules :: tag_rules where
  "ex_short_rules =
     [(''ec2'', [\<lparr>Key = None, Value = None, Partial = False\<rparr>,
                 \<lparr>Key = Some '''', Value = Some '''', Partial = False\<rparr>])]"

definition st0 :: plan_state where
  "st0 = \<lparr>written = {}, out_rows = [], log = []\<rparr>"

section \<open>Notions used in the statements\<close>

text \<open>
  The invariant of the loop: the set \<open>written\<close> holds exactly the rows written, and no
  row was written twice.
\<close>

definition plan_inv :: "plan_state \<Rightarrow> bool" where
  "plan_inv st = (written st = set (out_rows st) \<and> distinct (out_rows st))"

text \<open>
  An identifier passes the region guard of lines 180-184: it has a fourth field, and that
  field is empty or is the region filter.
\<close>

definition region_ok :: "string \<Rightarrow> string \<Rightarrow> bool" where
  "region_ok region_filter arn =
     (3 < length (split CHR '':'' arn)
      \<and> (split CHR '':'' arn ! 3 = [] \<or> split CHR '':'' arn ! 3 = region_filter))"

definition ex_resources :: "resource list" where
  "ex_resources = [ex_instance, ex_other_region, ex_bucket]"

text \<open>
  The tag-based match in the words of the specification: the resource tag's key equals
  the rule's tag key up to case, and its value contains the filter (filter written with a
  leading \<open>~\<close>, which is removed) or equals it, up to case. Containment is \<^const>\<open>sublist\<close>.
\<close>

definition spec_tag_rule_matches :: "string \<Rightarrow> string \<Rightarrow> tag \<Rightarrow> bool" where
  "spec_tag_rule_matches tag_key tag_value_filter t =
     (lower (get_or_empty (Key t)) = lower tag_key
      \<and> (if prefix ''~'' tag_value_filter
         then sublist (lower (tl tag_value_filter)) (lower (get_or_empty (Value t)))
         else lower (get_or_empty (Value t)) = lower tag_value_filter))"

definition ex_tier_rule :: "rule list" where
  "ex_tier_rule = [\<lparr>Key = Some ''Tier'', Value = Some ''Gold'', Partial = False\<rparr>]"

definition ex_env_tags :: "tag list" where
  "ex_env_tags =
     [\<lparr>Key = Some ''Environment'', Value = Some ''PROD''\<rparr>,
      \<lparr>Key = Some ''ENVIRONMENT'', Value = Some ''devprod''\<rparr>,
      \<lparr>Key = Some ''Env'', Value = Some ''prod''\<rparr>]"

definition ex_web_rules :: tag_rules where
  "ex_web_rules = [(''web'', [\<lparr>Key = Some ''Application'', Value = Some ''CRM'', Partial = True\<rparr>])]"

text \<open>
  A line of the rule file that \<open>load_tag_rules\<close> takes as a rule: not blank, with a
  \<open>Filter\<close> field that is, after \<open>strip\<close>, neither empty nor a comment.
\<close>

definition rule_row :: "string list \<Rightarrow> string list \<Rightarrow> bool" where
  "rule_row fieldnames r =
     (r \<noteq> [] \<and>
      (case row_dict fieldnames r ''Filter'' of
         Some (Some f) \<Rightarrow> strip f \<noteq> [] \<and> \<not> startswith (strip f) ''#''
       | _ \<Rightarrow> False))"

text \<open>
  A line that \<open>load_tag_rules\<close> passes over (blank, or with a \<open>Filter\<close> field that is
  empty after \<open>strip\<close> or a comment), and a line that is not blank and too short to
  have a \<open>Filter\<close> field.
\<close>

definition skipped_line :: "string list \<Rightarrow> string list \<Rightarrow> bool" where
  "skipped_line fieldnames r =
     (r = [] \<or>
      (case row_dict fieldnames r ''Filter'' of
         Some (Some f) \<Rightarrow> strip f = [] \<or> startswith (strip f) ''#''
       | _ \<Rightarrow> False))"

definition short_line :: "string list \<Rightarrow> string list \<Rightarrow> bool" where
  "short_line fieldnames r = (r \<noteq> [] \<and> row_dict fieldnames r ''Filter'' = Some None)"

text \<open>
  Rules and rows in which no tag key and no tag value is \<open>None\<close>: what a rule file
  without short lines gives.
\<close>

definition complete_rules :: "tag_rules \<Rightarrow> bool" where
  "complete_rules tag_rules =
     list_all (\<lambda>(k, rl). list_all (\<lambda>r. Key r \<noteq> None \<and> Value r \<noteq> None) rl) tag_rules"

definition complete_row :: "row \<Rightarrow> bool" where
  "complete_row r = (fst (snd r) \<noteq> None \<and> snd (snd r) \<noteq> None)"


text \<open>
  Writing rows after the rows \<open>acc\<close>, leaving out a row that is already there:
  what lines 229-233 do with the rows of one resource after the other.
\<close>

fun emit :: "row list \<Rightarrow> row list \<Rightarrow> row list" where
  "emit acc [] = acc"
| "emit acc (x # xs) = (if x \<in> set acc then emit acc xs else emit (acc @ [x]) xs)"




section \<open>The invariant of the loop\<close>

lemma load_ex_file: "load_tag_rules ''tags.csv'' ex_file = Inr ex_rules"
  by code_simp

lemma write_rows_inv: "plan_inv st \<Longrightarrow> plan_inv (write_rows arn ts st)"
  by (induction ts arbitrary: st) (auto simp: Let_def plan_inv_def)

lemma process_resource_inv:
  "plan_inv st \<Longrightarrow> process_resource ko rules rf st r = Inr st' \<Longrightarrow> plan_inv st'"
  unfolding process_resource_def Let_def
  by (auto split: if_splits simp: write_rows_inv) (simp add: plan_inv_def)+

lemma write_loop_inv:
  "plan_inv st \<Longrightarrow> plan_inv (fst (write_loop ko rules rf rs st))"
proof (induction rs arbitrary: st)
  case Nil
  then show ?case by simp
next
  case (Cons r rs)
  show ?case
  proof (cases "process_resource ko rules rf st r")
    case (Inl e)
    with Cons.prems show ?thesis by simp
  next
    case (Inr st')
    with Cons.prems have "plan_inv st'" by (simp add: process_resource_inv)
    with Cons.IH Inr show ?thesis by simp
  qed
qed

lemma write_plan_inv: "plan_inv (fst (write_plan ko rs rules rf))"
proof -
  have "plan_inv \<lparr>written = {}, out_rows = [], log = []\<rparr>"
    by (simp add: plan_inv_def)
  then show ?thesis
    unfolding write_plan_def by (rule write_loop_inv)
qed

text \<open>
  The tuples passed to \<open>writer.writerow\<close> are pairwise different, for every rule set and
  resource list, also when the run is ended by an exception.
\<close>

lemma write_plan_tuples_distinct:
  "distinct (out_rows (fst (write_plan key_order resources tag_rules region_filter)))"
  using write_plan_inv [of key_order resources tag_rules region_filter]
  by (simp add: plan_inv_def)

section \<open>Resources the loop skips or fails on\<close>

lemma process_resource_malformed:
  "\<not> truthy (Arn r) \<or> \<not> truthy (Service r) \<Longrightarrow> process_resource ko rules rf st r = Inr st"
  by (auto simp: process_resource_def)

lemma write_loop_append:
  "write_loop ko rules rf (pre @ post) st =
     (case write_loop ko rules rf pre st of
        (st', None) \<Rightarrow> write_loop ko rules rf post st'
      | (st', Some e) \<Rightarrow> (st', Some e))"
  by (induction pre arbitrary: st) (auto split: sum.splits)

text \<open>
  C9: a resource record without identifier or without service is skipped: the loop body
  returns the state as it was (no row, no exception), and the whole plan (rows, log and
  outcome) is the plan of the list without that record, so the other resources are
  processed as if it were not there.
\<close>

theorem malformed_resource_skipped:
  assumes "\<not> truthy (Arn r) \<or> \<not> truthy (Service r)"
  shows "process_resource key_order tag_rules region_filter st r = Inr st
    \<and> write_plan key_order (pre @ r # post) tag_rules region_filter
        = write_plan key_order (pre @ post) tag_rules region_filter"
proof -
  have step: "\<And>s. process_resource key_order tag_rules region_filter s r = Inr s"
    using assms by (rule process_resource_malformed)
  then have "\<And>s. write_loop key_order tag_rules region_filter (r # post) s
      = write_loop key_order tag_rules region_filter post s"
    by simp
  then show ?thesis
    unfolding write_plan_def using step
    by (simp add: write_loop_append [of _ _ _ pre] del: write_loop.simps
          split: prod.splits option.splits)
qed

theorem malformed_resource_skipped_witness:
  "\<not> truthy (Service ex_no_service)
   \<and> process_resource id ex_rules ''us-west-2'' st0 ex_no_service = Inr st0
   \<and> write_plan id ([ex_bucket] @ ex_no_service # [ex_instance]) ex_rules ''us-west-2''
       = write_plan id ([ex_bucket] @ [ex_instance]) ex_rules ''us-west-2''"
proof -
  have h: "\<not> truthy (Arn ex_no_service) \<or> \<not> truthy (Service ex_no_service)"
    by (simp add: ex_no_service_def)
  have "\<not> truthy (Service ex_no_service)"
    by (simp add: ex_no_service_def)
  then show ?thesis
    using malformed_resource_skipped [OF h, of id ex_rules "''us-west-2''" st0
        "[ex_bucket]" "[ex_instance]"]
    by blast
qed

lemma process_resource_error:
  "process_resource ko rules rf st r = Inl e \<Longrightarrow> e = IndexError"
  unfolding process_resource_def Let_def by (auto split: if_splits)

lemma process_resource_short_arn:
  "truthy (Arn r) \<Longrightarrow> truthy (Service r) \<Longrightarrow> length (split CHR '':'' (the (Arn r))) < 4
    \<Longrightarrow> process_resource ko rules rf st r = Inl IndexError"
  unfolding process_resource_def Let_def by auto

lemma write_loop_short_arn:
  "r \<in> set rs \<Longrightarrow> truthy (Arn r) \<Longrightarrow> truthy (Service r)
    \<Longrightarrow> length (split CHR '':'' (the (Arn r))) < 4
    \<Longrightarrow> snd (write_loop ko rules rf rs st) = Some IndexError"
proof (induction rs arbitrary: st)
  case Nil
  then show ?case by simp
next
  case (Cons x rs)
  show ?case
  proof (cases "process_resource ko rules rf st x")
    case (Inl e)
    then show ?thesis by (simp add: process_resource_error)
  next
    case (Inr st')
    with Cons.prems have "x \<noteq> r" by (auto simp: process_resource_short_arn)
    with Cons Inr show ?thesis by simp
  qed
qed

text \<open>
  C10: for a resource with a non-empty identifier and a non-empty service whose
  identifier has fewer than four fields between colons, the loop body raises IndexError
  at \<open>arn_parts[3]\<close>, and a run of \<open>write_plan\<close> over a list that holds such a resource
  ends with IndexError.
\<close>

theorem short_arn_raises_IndexError:
  assumes "truthy (Arn r)" and "truthy (Service r)"
    and "length (split CHR '':'' (the (Arn r))) < 4"
  shows "process_resource key_order tag_rules region_filter st r = Inl IndexError
    \<and> (r \<in> set resources \<longrightarrow>
         snd (write_plan key_order resources tag_rules region_filter) = Some IndexError)"
  using assms
  by (simp add: process_resource_short_arn write_loop_short_arn write_plan_def)

theorem short_arn_raises_IndexError_witness:
  "truthy (Arn ex_short_arn) \<and> truthy (Service ex_short_arn)
   \<and> length (split CHR '':'' (the (Arn ex_short_arn))) < 4
   \<and> ex_short_arn \<in> set [ex_instance, ex_short_arn]
   \<and> process_resource id ex_rules ''us-west-2'' st0 ex_short_arn = Inl IndexError
   \<and> snd (write_plan id [ex_instance, ex_short_arn] ex_rules ''us-west-2'') = Some IndexError"
proof -
  have h1: "truthy (Arn ex_short_arn)" and h2: "truthy (Service ex_short_arn)"
    and h3: "length (split CHR '':'' (the (Arn ex_short_arn))) < 4"
    by (simp_all add: ex_short_arn_def cons_first_def)
  have h4: "ex_short_arn \<in> set [ex_instance, ex_short_arn]" by simp
  show ?thesis
    using h1 h2 h3 h4
      short_arn_raises_IndexError [OF h1 h2 h3, of id ex_rules "''us-west-2''" st0
        "[ex_instance, ex_short_arn]"]
    by blast
qed

section \<open>Rows and log only grow\<close>

lemma write_rows_mono:
  "written st \<subseteq> written (write_rows arn ts st)
   \<and> set (out_rows st) \<subseteq> set (out_rows (write_rows arn ts st))
   \<and> set (log st) \<subseteq> set (log (write_rows arn ts st))"
proof (induction ts arbitrary: st)
  case Nil
  then show ?case by simp
next
  case (Cons t ts)
  let ?st' = "st\<lparr>written := insert (arn, Key t, Value t) (written st),
              out_rows := out_rows st @ [(arn, Key t, Value t)],
              log := log st @ [WroteTagPlan arn (Key t) (Value t)]\<rparr>"
  show ?case
  proof (cases "(arn, Key t, Value t) \<in> written st")
    case True
    with Cons.IH [of st] show ?thesis by (simp add: Let_def)
  next
    case False
    have "written st \<subseteq> written ?st'" "set (out_rows st) \<subseteq> set (out_rows ?st')"
      "set (log st) \<subseteq> set (log ?st')"
      by auto
    with Cons.IH [of ?st'] have
      "written st \<subseteq> written (write_rows arn ts ?st')
       \<and> set (out_rows st) \<subseteq> set (out_rows (write_rows arn ts ?st'))
       \<and> set (log st) \<subseteq> set (log (write_rows arn ts ?st'))"
      by blast
    with False show ?thesis by (simp add: Let_def)
  qed
qed

lemma write_rows_written_mono: "written st \<subseteq> written (write_rows arn ts st)"
  using write_rows_mono by blast

lemma write_rows_out_mono: "set (out_rows st) \<subseteq> set (out_rows (write_rows arn ts st))"
  using write_rows_mono by blast

lemma write_rows_log_mono: "set (log st) \<subseteq> set (log (write_rows arn ts st))"
  using write_rows_mono by blast

lemma write_rows_new:
  "row \<in> set (out_rows (write_rows arn ts st))
    \<Longrightarrow> row \<in> set (out_rows st) \<or> (\<exists>t\<in>set ts. row = (arn, Key t, Value t))"
proof (induction ts arbitrary: st)
  case Nil
  then show ?case by simp
next
  case (Cons t ts)
  let ?st' = "st\<lparr>written := insert (arn, Key t, Value t) (written st),
              out_rows := out_rows st @ [(arn, Key t, Value t)],
              log := log st @ [WroteTagPlan arn (Key t) (Value t)]\<rparr>"
  show ?case
  proof (cases "(arn, Key t, Value t) \<in> written st")
    case True
    with Cons.prems have "row \<in> set (out_rows (write_rows arn ts st))"
      by (simp add: Let_def)
    from Cons.IH [OF this] show ?thesis by auto
  next
    case False
    with Cons.prems have "row \<in> set (out_rows (write_rows arn ts ?st'))"
      by (simp add: Let_def)
    from Cons.IH [OF this] show ?thesis by auto
  qed
qed

lemma write_rows_covers_written:
  "t \<in> set ts \<Longrightarrow> (arn, Key t, Value t) \<in> written (write_rows arn ts st)"
proof (induction ts arbitrary: st)
  case Nil
  then show ?case by simp
next
  case (Cons x ts)
  show ?case
  proof (cases "t = x")
    case True
    then show ?thesis
      using write_rows_written_mono [of "st\<lparr>written := insert (arn, Key x, Value x) (written st),
              out_rows := out_rows st @ [(arn, Key x, Value x)],
              log := log st @ [WroteTagPlan arn (Key x) (Value x)]\<rparr>" arn ts]
        write_rows_written_mono [of st arn ts]
      by (auto simp: Let_def)
  next
    case False
    with Cons show ?thesis by (auto simp: Let_def)
  qed
qed

lemma write_rows_covers:
  "plan_inv st \<Longrightarrow> t \<in> set ts \<Longrightarrow> (arn, Key t, Value t) \<in> set (out_rows (write_rows arn ts st))"
  using write_rows_covers_written [of t ts arn st] write_rows_inv [of st arn ts]
  by (simp add: plan_inv_def)

lemma process_resource_mono:
  "process_resource ko rules rf st r = Inr st'
    \<Longrightarrow> set (out_rows st) \<subseteq> set (out_rows st') \<and> set (log st) \<subseteq> set (log st')"
  unfolding process_resource_def Let_def
  by (auto split: if_splits intro: subsetD [OF write_rows_out_mono]
        subsetD [OF write_rows_log_mono])

lemma write_loop_mono:
  "set (out_rows st) \<subseteq> set (out_rows (fst (write_loop ko rules rf rs st)))
   \<and> set (log st) \<subseteq> set (log (fst (write_loop ko rules rf rs st)))"
proof (induction rs arbitrary: st)
  case Nil
  then show ?case by simp
next
  case (Cons r rs)
  show ?case
  proof (cases "process_resource ko rules rf st r")
    case (Inl e)
    then show ?thesis by simp
  next
    case (Inr st')
    from process_resource_mono [OF Inr] Cons.IH [of st'] Inr show ?thesis
      by auto
  qed
qed

lemma write_loop_processed:
  "r \<in> set rs \<Longrightarrow> snd (write_loop ko rules rf rs st) = None \<Longrightarrow> plan_inv st
    \<Longrightarrow> \<exists>s s'. plan_inv s \<and> process_resource ko rules rf s r = Inr s'
          \<and> set (out_rows s') \<subseteq> set (out_rows (fst (write_loop ko rules rf rs st)))
          \<and> set (log s') \<subseteq> set (log (fst (write_loop ko rules rf rs st)))"
proof (induction rs arbitrary: st)
  case Nil
  then show ?case by simp
next
  case (Cons x rs)
  show ?case
  proof (cases "process_resource ko rules rf st x")
    case (Inl e)
    with Cons.prems show ?thesis by simp
  next
    case (Inr st')
    have inv': "plan_inv st'"
      using Cons.prems(3) Inr by (rule process_resource_inv)
    show ?thesis
    proof (cases "x = r")
      case True
      with Inr Cons.prems(3) write_loop_mono [of st' ko rules rf rs] show ?thesis
        by (intro exI [of _ st] exI [of _ st']) simp
    next
      case False
      with Cons.prems have "r \<in> set rs" by simp
      moreover from Cons.prems(2) Inr have "snd (write_loop ko rules rf rs st') = None" by simp
      ultimately show ?thesis
        using Cons.IH [of st'] inv' Inr by simp
    qed
  qed
qed

section \<open>The lines of the plan file\<close>

text \<open>
  When no rule has \<open>None\<close> for its tag key or tag value, different tuples are different
  lines, and the plan file has no line twice.
\<close>

lemma complete_rules_get:
  "complete_rules tag_rules \<Longrightarrow> r \<in> set (rules_get tag_rules k)
    \<Longrightarrow> Key r \<noteq> None \<and> Value r \<noteq> None"
proof -
  assume c: "complete_rules tag_rules" and r: "r \<in> set (rules_get tag_rules k)"
  from r obtain rl where "map_of tag_rules k = Some rl" and rl: "r \<in> set rl"
    by (cases "map_of tag_rules k") (auto simp: rules_get_def)
  then have "(k, rl) \<in> set tag_rules" by (simp add: map_of_SomeD)
  with c rl show ?thesis
    by (auto simp: complete_rules_def list_all_iff)
qed

lemma tag_filter_tags_subset:
  "set (tag_filter_tags k rl ts) \<subseteq> tag_of ` set rl"
  by (auto simp: tag_filter_tags_def Let_def split: if_splits)

lemma complete_specific_tags:
  assumes c: "complete_rules tag_rules"
    and t: "t \<in> set (specific_tags ko tag_rules arn service r @ map tag_of (rules_get tag_rules ''all''))"
  shows "Key t \<noteq> None \<and> Value t \<noteq> None"
proof -
  have item: "\<And>k rl x. (k, rl) \<in> set tag_rules \<Longrightarrow> x \<in> set rl
      \<Longrightarrow> Key x \<noteq> None \<and> Value x \<noteq> None"
    using c by (auto simp: complete_rules_def list_all_iff)
  from t obtain x where x: "t = tag_of x" and
    "(\<exists>k. x \<in> set (rules_get tag_rules k)) \<or> (\<exists>k rl. (k, rl) \<in> set tag_rules \<and> x \<in> set rl)"
    using tag_filter_tags_subset
    by (fastforce simp: specific_tags_def exact_tags_def partial_tags_def tag_based_tags_def
          Let_def split: if_splits)
  then have "Key x \<noteq> None \<and> Value x \<noteq> None"
    using complete_rules_get [OF c] item by blast
  with x show ?thesis by (simp add: tag_of_def)
qed

lemma process_resource_complete:
  assumes "complete_rules tag_rules" and "process_resource ko tag_rules rf st r = Inr st'"
    and "row \<in> set (out_rows st')"
  shows "row \<in> set (out_rows st) \<or> complete_row row"
proof (cases "row \<in> set (out_rows st)")
  case True
  then show ?thesis by simp
next
  case False
  with assms(2,3) obtain t where
    "t \<in> set (specific_tags ko tag_rules (the (Arn r)) (the (Service r)) r
              @ map tag_of (rules_get tag_rules ''all''))"
    and "row = (the (Arn r), Key t, Value t)"
    unfolding process_resource_def Let_def
    by (auto split: if_splits dest!: write_rows_new)
  with complete_specific_tags [OF assms(1)] show ?thesis
    by (simp add: complete_row_def)
qed

lemma write_loop_complete:
  "complete_rules tag_rules \<Longrightarrow> row \<in> set (out_rows (fst (write_loop ko tag_rules rf rs st)))
    \<Longrightarrow> row \<in> set (out_rows st) \<or> complete_row row"
proof (induction rs arbitrary: st)
  case Nil
  then show ?case by simp
next
  case (Cons r rs)
  show ?case
  proof (cases "process_resource ko tag_rules rf st r")
    case (Inl e)
    with Cons.prems show ?thesis by simp
  next
    case (Inr st')
    with Cons.prems Cons.IH [of st'] process_resource_complete [OF Cons.prems(1) Inr, of row]
    show ?thesis by auto
  qed
qed

lemma csv_row_inj: "complete_row a \<Longrightarrow> complete_row b \<Longrightarrow> csv_row a = csv_row b \<Longrightarrow> a = b"
  by (cases a; cases b) (auto simp: complete_row_def csv_row_def csv_field_def)

lemma plan_file_distinct_complete:
  assumes "complete_rules tag_rules"
  shows "distinct (map csv_row (out_rows (fst (write_plan ko rs tag_rules rf))))"
proof -
  let ?rows = "out_rows (fst (write_plan ko rs tag_rules rf))"
  have "\<And>row. row \<in> set ?rows \<Longrightarrow> complete_row row"
    using write_loop_complete [OF assms, of _ ko rf rs "\<lparr>written = {}, out_rows = [], log = []\<rparr>"]
    by (auto simp: write_plan_def)
  then have "inj_on csv_row (set ?rows)"
    by (intro inj_onI csv_row_inj)
  moreover have "distinct ?rows"
    using write_plan_inv [of ko rs tag_rules rf] by (simp add: plan_inv_def)
  ultimately show ?thesis by (simp add: distinct_map)
qed

text \<open>
  C1: the rule file with the header and the lines \<open>ec2\<close> and \<open>ec2,,\<close> gives two
  rules for \<open>ec2\<close>, one with \<open>None\<close> and one with the empty string for tag key and tag
  value. For an \<open>ec2\<close> resource the loop passes two different tuples to
  \<open>writer.writerow\<close>, and the plan file holds the line with that identifier and two
  empty fields twice.
\<close>

theorem short_rule_line_duplicates_plan_line:
  "load_tag_rules ''tags.csv'' ex_short_rule_file = Inr ex_short_rules
   \<and> out_rows (fst (write_plan id [ex_instance] ex_short_rules ''us-west-2''))
       = [(''arn:aws:ec2:us-west-2:123:instance/i-1'', None, None),
          (''arn:aws:ec2:us-west-2:123:instance/i-1'', Some '''', Some '''')]
   \<and> plan_file (fst (write_plan id [ex_instance] ex_short_rules ''us-west-2''))
       = [[''ResourceARN'', ''TagKey'', ''TagValue''],
          [''arn:aws:ec2:us-west-2:123:instance/i-1'', '''', ''''],
          [''arn:aws:ec2:us-west-2:123:instance/i-1'', '''', '''']]
   \<and> \<not> distinct (plan_file (fst (write_plan id [ex_instance] ex_short_rules ''us-west-2'')))"
  by code_simp

section \<open>The region guard\<close>

lemma process_resource_region:
  "process_resource ko rules rf st r = Inr st' \<Longrightarrow> row \<in> set (out_rows st')
    \<Longrightarrow> row \<in> set (out_rows st) \<or> region_ok rf (fst row)"
  unfolding process_resource_def Let_def
  by (auto split: if_splits dest!: write_rows_new simp: region_ok_def)

lemma write_loop_region:
  "row \<in> set (out_rows (fst (write_loop ko rules rf rs st)))
    \<Longrightarrow> row \<in> set (out_rows st) \<or> region_ok rf (fst row)"
proof (induction rs arbitrary: st)
  case Nil
  then show ?case by simp
next
  case (Cons r rs)
  show ?case
  proof (cases "process_resource ko rules rf st r")
    case (Inl e)
    with Cons.prems show ?thesis by simp
  next
    case (Inr st')
    with Cons.prems Cons.IH [of st'] process_resource_region [OF Inr, of row]
    show ?thesis by auto
  qed
qed

lemma write_plan_region:
  "row \<in> set (out_rows (fst (write_plan ko rs rules rf))) \<Longrightarrow> region_ok rf (fst row)"
  using write_loop_region [of row ko rules rf rs "\<lparr>written = {}, out_rows = [], log = []\<rparr>"]
  by (auto simp: write_plan_def)

lemma process_resource_region_mismatch:
  "Arn r = Some arn \<Longrightarrow> 3 < length (split CHR '':'' arn) \<Longrightarrow> split CHR '':'' arn ! 3 \<noteq> []
    \<Longrightarrow> split CHR '':'' arn ! 3 \<noteq> rf \<Longrightarrow> truthy (Service r)
    \<Longrightarrow> process_resource ko rules rf st r
          = Inr (st\<lparr>log := log st @ [SkipRegion arn (split CHR '':'' arn ! 3)]\<rparr>)"
  unfolding process_resource_def Let_def by auto

text \<open>
  C3, as the code has it. A resource whose identifier has a non-empty fourth field that
  differs from the region filter gets no row: no row of the plan carries its identifier,
  whatever the resource list. When the resource has a service, the loop body only appends
  the region-mismatch line to the log, and a run that ends without exception has that
  line in its log. When it has no service, the loop body leaves the state as it is: the
  resource is skipped by the guard of line 178, before the region is looked at, and
  nothing is logged.
\<close>

theorem region_mismatch_skipped:
  assumes "Arn r = Some arn" and "3 < length (split CHR '':'' arn)"
    and "split CHR '':'' arn ! 3 \<noteq> []" and "split CHR '':'' arn ! 3 \<noteq> region_filter"
  shows "(\<forall>row \<in> set (out_rows (fst (write_plan key_order resources tag_rules region_filter))).
            fst row \<noteq> arn)
    \<and> (truthy (Service r) \<longrightarrow>
         process_resource key_order tag_rules region_filter st r
           = Inr (st\<lparr>log := log st @ [SkipRegion arn (split CHR '':'' arn ! 3)]\<rparr>))
    \<and> (truthy (Service r) \<and> r \<in> set resources
         \<and> snd (write_plan key_order resources tag_rules region_filter) = None \<longrightarrow>
         SkipRegion arn (split CHR '':'' arn ! 3)
           \<in> set (log (fst (write_plan key_order resources tag_rules region_filter))))
    \<and> (\<not> truthy (Service r) \<longrightarrow>
         process_resource key_order tag_rules region_filter st r = Inr st)"
proof (intro conjI ballI impI)
  fix row
  assume "row \<in> set (out_rows (fst (write_plan key_order resources tag_rules region_filter)))"
  then have "region_ok region_filter (fst row)" by (rule write_plan_region)
  with assms show "fst row \<noteq> arn" by (auto simp: region_ok_def)
next
  assume "truthy (Service r)"
  with assms show "process_resource key_order tag_rules region_filter st r
      = Inr (st\<lparr>log := log st @ [SkipRegion arn (split CHR '':'' arn ! 3)]\<rparr>)"
    by (simp add: process_resource_region_mismatch)
next
  assume a: "truthy (Service r) \<and> r \<in> set resources
    \<and> snd (write_plan key_order resources tag_rules region_filter) = None"
  have "plan_inv \<lparr>written = {}, out_rows = [], log = []\<rparr>" by (simp add: plan_inv_def)
  with a obtain s s' where
    step: "process_resource key_order tag_rules region_filter s r = Inr s'"
    and sub: "set (log s') \<subseteq> set (log (fst (write_plan key_order resources tag_rules region_filter)))"
    unfolding write_plan_def
    using write_loop_processed [of r resources key_order tag_rules region_filter
        "\<lparr>written = {}, out_rows = [], log = []\<rparr>"]
    by blast
  from a assms have "process_resource key_order tag_rules region_filter s r
      = Inr (s\<lparr>log := log s @ [SkipRegion arn (split CHR '':'' arn ! 3)]\<rparr>)"
    by (simp add: process_resource_region_mismatch)
  with step have "SkipRegion arn (split CHR '':'' arn ! 3) \<in> set (log s')" by auto
  with sub show "SkipRegion arn (split CHR '':'' arn ! 3)
      \<in> set (log (fst (write_plan key_order resources tag_rules region_filter)))"
    by blast
next
  assume "\<not> truthy (Service r)"
  then show "process_resource key_order tag_rules region_filter st r = Inr st"
    by (simp add: process_resource_malformed)
qed

theorem region_mismatch_skipped_witness:
  "Arn ex_other_region = Some ''arn:aws:ec2:eu-west-1:123:instance/i-2''
   \<and> split CHR '':'' ''arn:aws:ec2:eu-west-1:123:instance/i-2'' ! 3 = ''eu-west-1''
   \<and> (''arn:aws:ec2:eu-west-1:123:instance/i-2'', Some ''Backup'', Some ''Daily'')
        \<notin> set (out_rows (fst (write_plan id ex_resources ex_rules ''us-west-2'')))
   \<and> SkipRegion ''arn:aws:ec2:eu-west-1:123:instance/i-2'' ''eu-west-1''
        \<in> set (log (fst (write_plan id ex_resources ex_rules ''us-west-2'')))
   \<and> process_resource id ex_rules ''us-west-2'' st0 ex_no_service_eu = Inr st0"
proof -
  let ?arn = "''arn:aws:ec2:eu-west-1:123:instance/i-2''"
  let ?arn4 = "''arn:aws:ec2:eu-west-1:123:instance/i-4''"
  have h1: "Arn ex_other_region = Some ?arn" by (simp add: ex_other_region_def)
  have h2: "3 < length (split CHR '':'' ?arn)" by code_simp
  have reg: "split CHR '':'' ?arn ! 3 = ''eu-west-1''" by code_simp
  have h3: "split CHR '':'' ?arn ! 3 \<noteq> []" and h4: "split CHR '':'' ?arn ! 3 \<noteq> ''us-west-2''"
    unfolding reg by simp_all
  have srv: "truthy (Service ex_other_region)" by (simp add: ex_other_region_def)
  have mem: "ex_other_region \<in> set ex_resources" by (simp add: ex_resources_def)
  have ok: "snd (write_plan id ex_resources ex_rules ''us-west-2'') = None" by code_simp
  have g1: "Arn ex_no_service_eu = Some ?arn4" by (simp add: ex_no_service_eu_def)
  have g2: "3 < length (split CHR '':'' ?arn4)" by code_simp
  have reg4: "split CHR '':'' ?arn4 ! 3 = ''eu-west-1''" by code_simp
  have g3: "split CHR '':'' ?arn4 ! 3 \<noteq> []" and g4: "split CHR '':'' ?arn4 ! 3 \<noteq> ''us-west-2''"
    unfolding reg4 by simp_all
  have nosrv: "\<not> truthy (Service ex_no_service_eu)" by (simp add: ex_no_service_eu_def)
  from region_mismatch_skipped [OF g1 g2 g3 g4, of id ex_resources ex_rules st0] nosrv
  have "process_resource id ex_rules ''us-west-2'' st0 ex_no_service_eu = Inr st0"
    by blast
  with region_mismatch_skipped [OF h1 h2 h3 h4, of id ex_resources ex_rules st0]
  show ?thesis using h1 reg srv mem ok by auto
qed

text \<open>
  The claim C3 as stated fails: a record whose identifier is in another region and that
  has no service is skipped without a region-mismatch line; the log of the run is empty.
\<close>

theorem region_mismatch_without_service_not_logged_counterexample:
  "Arn ex_no_service_eu = Some ''arn:aws:ec2:eu-west-1:123:instance/i-4''
   \<and> split CHR '':'' ''arn:aws:ec2:eu-west-1:123:instance/i-4'' ! 3 = ''eu-west-1''
   \<and> ''eu-west-1'' \<noteq> ''us-west-2''
   \<and> log (fst (write_plan id [ex_no_service_eu] ex_rules ''us-west-2'')) = []
   \<and> snd (write_plan id [ex_no_service_eu] ex_rules ''us-west-2'') = None"
  by code_simp

section \<open>The catch-all rules\<close>

lemma process_resource_matched:
  "Arn r = Some arn \<Longrightarrow> arn \<noteq> [] \<Longrightarrow> Service r = Some service \<Longrightarrow> service \<noteq> []
    \<Longrightarrow> 3 < length (split CHR '':'' arn)
    \<Longrightarrow> split CHR '':'' arn ! 3 = [] \<or> split CHR '':'' arn ! 3 = rf
    \<Longrightarrow> specific_tags ko rules arn service r \<noteq> []
    \<Longrightarrow> process_resource ko rules rf st r
          = Inr (write_rows arn
                  (specific_tags ko rules arn service r @ map tag_of (rules_get rules ''all'')) st)"
  unfolding process_resource_def Let_def by auto

lemma process_resource_unmatched:
  "Arn r = Some arn \<Longrightarrow> arn \<noteq> [] \<Longrightarrow> Service r = Some service \<Longrightarrow> service \<noteq> []
    \<Longrightarrow> 3 < length (split CHR '':'' arn)
    \<Longrightarrow> split CHR '':'' arn ! 3 = [] \<or> split CHR '':'' arn ! 3 = rf
    \<Longrightarrow> specific_tags ko rules arn service r = []
    \<Longrightarrow> process_resource ko rules rf st r = Inr (st\<lparr>log := log st @ [NoMatchingTags arn service]\<rparr>)"
  unfolding process_resource_def Let_def by auto

lemma write_rows_catch_all:
  assumes "plan_inv st" and "rule \<in> set all_rules"
  shows "(arn, Key rule, Value rule) \<in> set (out_rows (write_rows arn (ts @ map tag_of all_rules) st))"
proof -
  from assms(2) have "tag_of rule \<in> set (ts @ map tag_of all_rules)" by simp
  from write_rows_covers [OF assms(1) this, of arn] show ?thesis
    by (simp add: tag_of_def)
qed

text \<open>
  C2: take a resource that the loop matches against the rules (identifier and service
  present, region guard passed). If the exact, partial-name and tag-based steps gave it at
  least one tag, every rule stored under \<open>all\<close> has its row for that resource in the plan
  of a run that ends without exception. If they gave it none, the loop body emits nothing
  for it: the state only gains the log line "no matching tags".
\<close>

theorem catch_all_iff_specific_match:
  assumes "Arn r = Some arn" and "arn \<noteq> []" and "Service r = Some service" and "service \<noteq> []"
    and "3 < length (split CHR '':'' arn)"
    and "split CHR '':'' arn ! 3 = [] \<or> split CHR '':'' arn ! 3 = region_filter"
  shows "(specific_tags key_order tag_rules arn service r \<noteq> [] \<and> r \<in> set resources
          \<and> snd (write_plan key_order resources tag_rules region_filter) = None \<longrightarrow>
          (\<forall>rule \<in> set (rules_get tag_rules ''all'').
             (arn, Key rule, Value rule)
               \<in> set (out_rows (fst (write_plan key_order resources tag_rules region_filter)))))
    \<and> (specific_tags key_order tag_rules arn service r = [] \<longrightarrow>
          process_resource key_order tag_rules region_filter st r
            = Inr (st\<lparr>log := log st @ [NoMatchingTags arn service]\<rparr>))"
proof (intro conjI impI ballI)
  fix rule
  assume a: "specific_tags key_order tag_rules arn service r \<noteq> [] \<and> r \<in> set resources
          \<and> snd (write_plan key_order resources tag_rules region_filter) = None"
    and rule: "rule \<in> set (rules_get tag_rules ''all'')"
  have "plan_inv \<lparr>written = {}, out_rows = [], log = []\<rparr>" by (simp add: plan_inv_def)
  with a obtain s s' where inv: "plan_inv s"
    and step: "process_resource key_order tag_rules region_filter s r = Inr s'"
    and sub: "set (out_rows s')
      \<subseteq> set (out_rows (fst (write_plan key_order resources tag_rules region_filter)))"
    unfolding write_plan_def
    using write_loop_processed [of r resources key_order tag_rules region_filter
        "\<lparr>written = {}, out_rows = [], log = []\<rparr>"]
    by blast
  from a assms have "process_resource key_order tag_rules region_filter s r
      = Inr (write_rows arn (specific_tags key_order tag_rules arn service r
               @ map tag_of (rules_get tag_rules ''all'')) s)"
    by (intro process_resource_matched) simp_all
  with step have "s' = write_rows arn (specific_tags key_order tag_rules arn service r
               @ map tag_of (rules_get tag_rules ''all'')) s"
    by simp
  with write_rows_catch_all [OF inv rule] have "(arn, Key rule, Value rule) \<in> set (out_rows s')"
    by simp
  with sub show "(arn, Key rule, Value rule)
      \<in> set (out_rows (fst (write_plan key_order resources tag_rules region_filter)))"
    by blast
next
  assume "specific_tags key_order tag_rules arn service r = []"
  with assms show "process_resource key_order tag_rules region_filter st r
      = Inr (st\<lparr>log := log st @ [NoMatchingTags arn service]\<rparr>)"
    by (intro process_resource_unmatched) simp_all
qed

theorem catch_all_iff_specific_match_witness:
  "specific_tags id ex_rules ''arn:aws:ec2:us-west-2:123:instance/i-1'' ''ec2'' ex_instance \<noteq> []
   \<and> (''arn:aws:ec2:us-west-2:123:instance/i-1'', Some ''Owner'', Some ''Team'')
        \<in> set (out_rows (fst (write_plan id ex_resources ex_rules ''us-west-2'')))
   \<and> specific_tags id ex_rules ''arn:aws:s3:::bucket1'' ''s3'' ex_bucket = []
   \<and> process_resource id ex_rules ''us-west-2'' st0 ex_bucket
        = Inr (st0\<lparr>log := log st0 @ [NoMatchingTags ''arn:aws:s3:::bucket1'' ''s3'']\<rparr>)"
proof -
  let ?i = "''arn:aws:ec2:us-west-2:123:instance/i-1''"
  let ?b = "''arn:aws:s3:::bucket1''"
  have i1: "Arn ex_instance = Some ?i" and i2: "?i \<noteq> []"
    and i3: "Service ex_instance = Some ''ec2''" and i4: "''ec2'' \<noteq> []"
    by (simp_all add: ex_instance_def)
  have i5: "3 < length (split CHR '':'' ?i)" by code_simp
  have "split CHR '':'' ?i ! 3 = ''us-west-2''" by code_simp
  then have i6: "split CHR '':'' ?i ! 3 = [] \<or> split CHR '':'' ?i ! 3 = ''us-west-2''" by (rule disjI2)
  have b1: "Arn ex_bucket = Some ?b" and b2: "?b \<noteq> []"
    and b3: "Service ex_bucket = Some ''s3''" and b4: "''s3'' \<noteq> []"
    by (simp_all add: ex_bucket_def)
  have b5: "3 < length (split CHR '':'' ?b)" by code_simp
  have "split CHR '':'' ?b ! 3 = []" by code_simp
  then have b6: "split CHR '':'' ?b ! 3 = [] \<or> split CHR '':'' ?b ! 3 = ''us-west-2''" by (rule disjI1)
  have si: "specific_tags id ex_rules ?i ''ec2'' ex_instance \<noteq> []" by code_simp
  have sb: "specific_tags id ex_rules ?b ''s3'' ex_bucket = []" by code_simp
  have mem: "ex_instance \<in> set ex_resources" by (simp add: ex_resources_def)
  have ok: "snd (write_plan id ex_resources ex_rules ''us-west-2'') = None" by code_simp
  have all: "\<lparr>Key = Some ''Owner'', Value = Some ''Team'', Partial = False\<rparr>
      \<in> set (rules_get ex_rules ''all'')"
    by (simp add: rules_get_def ex_rules_def)
  from catch_all_iff_specific_match [OF i1 i2 i3 i4 i5 i6, of id ex_rules ex_resources st0]
    si mem ok all
  have "(?i, Some ''Owner'', Some ''Team'')
      \<in> set (out_rows (fst (write_plan id ex_resources ex_rules ''us-west-2'')))"
    by fastforce
  moreover from catch_all_iff_specific_match [OF b1 b2 b3 b4 b5 b6, of id ex_rules ex_resources st0]
    sb
  have "process_resource id ex_rules ''us-west-2'' st0 ex_bucket
        = Inr (st0\<lparr>log := log st0 @ [NoMatchingTags ?b ''s3'']\<rparr>)"
    by blast
  ultimately show ?thesis using si sb by blast
qed

section \<open>Tag-based rules\<close>

lemma str_in_sublist: "str_in sub s = sublist sub s"
  by (induction s) (simp_all add: sublist_Cons_right)

lemma split_max_field:
  "sep \<notin> set a \<Longrightarrow> split_max sep (Suc n) (a @ sep # rest) = a # split_max sep n rest"
  by (induction a) (auto simp: cons_first_def)

lemma split_max_tag_key:
  "CHR '':'' \<notin> set tag_key
    \<Longrightarrow> split_max CHR '':'' 2 (''tag:'' @ tag_key @ '':'' @ tag_value)
          = [''tag'', tag_key, tag_value]"
proof -
  assume a: "CHR '':'' \<notin> set tag_key"
  have "split_max CHR '':'' (Suc (Suc 0)) (''tag'' @ CHR '':'' # (tag_key @ CHR '':'' # tag_value))
      = ''tag'' # split_max CHR '':'' (Suc 0) (tag_key @ CHR '':'' # tag_value)"
    by (rule split_max_field) simp
  also have "split_max CHR '':'' (Suc 0) (tag_key @ CHR '':'' # tag_value)
      = tag_key # split_max CHR '':'' 0 tag_value"
    using a by (rule split_max_field)
  finally show ?thesis by (simp add: numeral_2_eq_2)
qed

text \<open>
  One dict item \<open>tag:<tagKey>:<tagValueFilter>\<close> against the tags of a resource: the
  code of lines 201-225 emits what the specification says.
\<close>

lemma tag_filter_tags_spec:
  assumes "CHR '':'' \<notin> set tag_key"
  shows "tag_filter_tags (''tag:'' @ tag_key @ '':'' @ tag_value_filter) rule_list res_tags
    = concat (map (\<lambda>t. if spec_tag_rule_matches tag_key tag_value_filter t
                        then map tag_of rule_list else []) res_tags)"
proof -
  have parts: "split_max CHR '':'' 2 (''tag:'' @ tag_key @ '':'' @ tag_value_filter)
      = [''tag'', tag_key, tag_value_filter]"
    using assms by (rule split_max_tag_key)
  have pre: "startswith (''tag:'' @ tag_key @ '':'' @ tag_value_filter) ''tag:''"
    by (simp add: startswith_def)
  have m: "\<And>t. (lower (get_or_empty (Key t)) = lower tag_key
          \<and> tag_value_matches tag_value_filter (get_or_empty (Value t)))
        = spec_tag_rule_matches tag_key tag_value_filter t"
    by (auto simp: tag_value_matches_def spec_tag_rule_matches_def startswith_def
          str_in_sublist Let_def)
  show ?thesis
    unfolding tag_filter_tags_def parts Let_def using pre
    by (simp add: m numeral_2_eq_2 del: append.simps)
qed

lemma tag_based_tags_item:
  "tag_based_tags (pre @ (rule_key, rule_list) # post) res_tags
     = tag_based_tags pre res_tags @ tag_filter_tags rule_key rule_list res_tags
       @ tag_based_tags post res_tags"
  by (simp add: tag_based_tags_def)

text \<open>
  C6: take a rule set that holds the key \<open>tag:<tagKey>:<tagValueFilter>\<close> (the tag key
  is what stands between the first two colons). For that key, step 3 of the plan builder
  emits the tags of its rules once for every resource tag whose key equals the tag key up
  to case and whose value matches (it contains the filter without its leading \<open>~\<close> up
  to case, when the filter begins with \<open>~\<close>, and equals the filter up to case
  otherwise), and nothing for the other resource tags; these tags are part of the tags
  of the resource. When a tag of a resource that the loop matches against the rules does
  match, every rule under the key has its row for that resource in the plan of a run
  that ends without exception.
\<close>

theorem tag_rule_emitted_by_plan:
  assumes "CHR '':'' \<notin> set tag_key"
    and "tag_rules = pre @ (''tag:'' @ tag_key @ '':'' @ tag_value_filter, rule_list) # post"
  shows "tag_based_tags tag_rules res_tags
      = tag_based_tags pre res_tags
        @ concat (map (\<lambda>t. if spec_tag_rule_matches tag_key tag_value_filter t
                            then map tag_of rule_list else []) res_tags)
        @ tag_based_tags post res_tags
    \<and> specific_tags key_order tag_rules arn service r
      = exact_tags key_order tag_rules
          (get_match_keys service (ResourceType r) (Some arn) (get_resource_name (Tags r)))
        @ partial_tags tag_rules (get_resource_name (Tags r))
        @ tag_based_tags pre (Tags r)
        @ concat (map (\<lambda>t. if spec_tag_rule_matches tag_key tag_value_filter t
                            then map tag_of rule_list else []) (Tags r))
        @ tag_based_tags post (Tags r)
    \<and> (Arn r = Some arn \<and> arn \<noteq> [] \<and> Service r = Some service \<and> service \<noteq> []
        \<and> 3 < length (split CHR '':'' arn)
        \<and> (split CHR '':'' arn ! 3 = [] \<or> split CHR '':'' arn ! 3 = region_filter)
        \<and> r \<in> set resources
        \<and> snd (write_plan key_order resources tag_rules region_filter) = None
        \<and> t \<in> set (Tags r) \<and> spec_tag_rule_matches tag_key tag_value_filter t
        \<and> rule \<in> set rule_list \<longrightarrow>
        (arn, Key rule, Value rule)
          \<in> set (out_rows (fst (write_plan key_order resources tag_rules region_filter))))"
proof (intro conjI impI)
  let ?block = "\<lambda>ts. concat (map (\<lambda>t. if spec_tag_rule_matches tag_key tag_value_filter t
                            then map tag_of rule_list else []) ts)"
  have item: "\<And>ts. tag_filter_tags (''tag:'' @ tag_key @ '':'' @ tag_value_filter) rule_list ts
      = ?block ts"
    using assms(1) by (rule tag_filter_tags_spec)
  show step3: "tag_based_tags tag_rules res_tags
      = tag_based_tags pre res_tags @ ?block res_tags @ tag_based_tags post res_tags"
    unfolding assms(2) tag_based_tags_item item ..
  have step3': "tag_based_tags tag_rules (Tags r)
      = tag_based_tags pre (Tags r) @ ?block (Tags r) @ tag_based_tags post (Tags r)"
    unfolding assms(2) tag_based_tags_item item ..
  show spec: "specific_tags key_order tag_rules arn service r
      = exact_tags key_order tag_rules
          (get_match_keys service (ResourceType r) (Some arn) (get_resource_name (Tags r)))
        @ partial_tags tag_rules (get_resource_name (Tags r))
        @ tag_based_tags pre (Tags r) @ ?block (Tags r) @ tag_based_tags post (Tags r)"
    by (simp add: specific_tags_def Let_def step3')
  assume a: "Arn r = Some arn \<and> arn \<noteq> [] \<and> Service r = Some service \<and> service \<noteq> []
        \<and> 3 < length (split CHR '':'' arn)
        \<and> (split CHR '':'' arn ! 3 = [] \<or> split CHR '':'' arn ! 3 = region_filter)
        \<and> r \<in> set resources
        \<and> snd (write_plan key_order resources tag_rules region_filter) = None
        \<and> t \<in> set (Tags r) \<and> spec_tag_rule_matches tag_key tag_value_filter t
        \<and> rule \<in> set rule_list"
  then have "tag_of rule \<in> set (?block (Tags r))" by auto
  then have mem: "tag_of rule \<in> set (specific_tags key_order tag_rules arn service r)"
    unfolding spec by simp
  then have ne: "specific_tags key_order tag_rules arn service r \<noteq> []" by auto
  have "plan_inv \<lparr>written = {}, out_rows = [], log = []\<rparr>" by (simp add: plan_inv_def)
  with a obtain s s' where inv: "plan_inv s"
    and step: "process_resource key_order tag_rules region_filter s r = Inr s'"
    and sub: "set (out_rows s')
      \<subseteq> set (out_rows (fst (write_plan key_order resources tag_rules region_filter)))"
    unfolding write_plan_def
    using write_loop_processed [of r resources key_order tag_rules region_filter
        "\<lparr>written = {}, out_rows = [], log = []\<rparr>"]
    by blast
  from a ne have "process_resource key_order tag_rules region_filter s r
      = Inr (write_rows arn (specific_tags key_order tag_rules arn service r
               @ map tag_of (rules_get tag_rules ''all'')) s)"
    by (intro process_resource_matched) simp_all
  with step have s': "s' = write_rows arn (specific_tags key_order tag_rules arn service r
               @ map tag_of (rules_get tag_rules ''all'')) s"
    by simp
  from mem have "tag_of rule \<in> set (specific_tags key_order tag_rules arn service r
               @ map tag_of (rules_get tag_rules ''all''))"
    by simp
  from write_rows_covers [OF inv this, of arn] s'
  have "(arn, Key rule, Value rule) \<in> set (out_rows s')"
    by (simp add: tag_of_def)
  with sub show "(arn, Key rule, Value rule)
      \<in> set (out_rows (fst (write_plan key_order resources tag_rules region_filter)))"
    by blast
qed

theorem tag_rule_emitted_by_plan_witness:
  "CHR '':'' \<notin> set ''environment''
   \<and> spec_tag_rule_matches ''environment'' ''prod'' \<lparr>Key = Some ''Environment'', Value = Some ''PROD''\<rparr>
   \<and> tag_based_tags ex_rules (Tags ex_prod_instance) = [\<lparr>Key = Some ''Tier'', Value = Some ''Gold''\<rparr>]
   \<and> (''arn:aws:ec2:us-west-2:123:instance/i-5'', Some ''Tier'', Some ''Gold'')
        \<in> set (out_rows (fst (write_plan id [ex_prod_instance, ex_bucket] ex_rules ''us-west-2'')))"
proof -
  let ?arn = "''arn:aws:ec2:us-west-2:123:instance/i-5''"
  let ?t = "\<lparr>Key = Some ''Environment'', Value = Some ''PROD''\<rparr>"
  let ?rule = "\<lparr>Key = Some ''Tier'', Value = Some ''Gold'', Partial = False\<rparr>"
  let ?pre = "[(''ec2:instance'', [\<lparr>Key = Some ''Backup'', Value = Some ''Daily'', Partial = False\<rparr>]),
      (''web'', [\<lparr>Key = Some ''Application'', Value = Some ''CRM'', Partial = True\<rparr>])]"
  let ?post = "[(''all'', [\<lparr>Key = Some ''Owner'', Value = Some ''Team'', Partial = False\<rparr>])]"
  have h: "CHR '':'' \<notin> set ''environment''" by simp
  have rules: "ex_rules = ?pre @ (''tag:'' @ ''environment'' @ '':'' @ ''prod'', ex_tier_rule) # ?post"
    by (simp add: ex_rules_def ex_tier_rule_def)
  have m: "spec_tag_rule_matches ''environment'' ''prod'' ?t" by code_simp
  have blocks: "tag_based_tags ?pre (Tags ex_prod_instance)
      @ concat (map (\<lambda>t. if spec_tag_rule_matches ''environment'' ''prod'' t
                          then map tag_of ex_tier_rule else []) (Tags ex_prod_instance))
      @ tag_based_tags ?post (Tags ex_prod_instance)
      = [\<lparr>Key = Some ''Tier'', Value = Some ''Gold''\<rparr>]"
    by code_simp
  have r1: "Arn ex_prod_instance = Some ?arn" and r2: "?arn \<noteq> []"
    and r3: "Service ex_prod_instance = Some ''ec2''" and r4: "''ec2'' \<noteq> []"
    and r7: "?t \<in> set (Tags ex_prod_instance)"
    by (simp_all add: ex_prod_instance_def)
  have r5: "3 < length (split CHR '':'' ?arn)" by code_simp
  have "split CHR '':'' ?arn ! 3 = ''us-west-2''" by code_simp
  then have r6: "split CHR '':'' ?arn ! 3 = [] \<or> split CHR '':'' ?arn ! 3 = ''us-west-2''"
    by (rule disjI2)
  have mem: "ex_prod_instance \<in> set [ex_prod_instance, ex_bucket]" by simp
  have ok: "snd (write_plan id [ex_prod_instance, ex_bucket] ex_rules ''us-west-2'') = None"
    by code_simp
  have rl: "?rule \<in> set ex_tier_rule" by (simp add: ex_tier_rule_def)
  note inst = tag_rule_emitted_by_plan [OF h rules, where res_tags = "Tags ex_prod_instance"
      and key_order = id and arn = "?arn" and service = "''ec2''" and r = ex_prod_instance
      and region_filter = "''us-west-2''" and resources = "[ex_prod_instance, ex_bucket]"
      and t = "?t" and rule = "?rule"]
  from inst have "tag_based_tags ex_rules (Tags ex_prod_instance)
      = [\<lparr>Key = Some ''Tier'', Value = Some ''Gold''\<rparr>]"
    unfolding blocks by blast
  moreover from inst r1 r2 r3 r4 r5 r6 r7 mem ok m rl
  have "(?arn, Some ''Tier'', Some ''Gold'')
      \<in> set (out_rows (fst (write_plan id [ex_prod_instance, ex_bucket] ex_rules ''us-west-2'')))"
    by fastforce
  ultimately show ?thesis using h m by blast
qed

section \<open>Names and identifiers are compared as they are\<close>

text \<open>
  What the partial-name step does: the rule key, lower-cased when the file was loaded, is
  looked for in the resource name as it is. Nothing lower-cases the name.
\<close>

lemma partial_tags_members:
  "name \<noteq> [] \<Longrightarrow>
   set (partial_tags tag_rules (Some name))
     = {tag_of r | rule_key rule_list r.
          (rule_key, rule_list) \<in> set tag_rules \<and> r \<in> set rule_list \<and> Partial r
          \<and> sublist rule_key name}"
  by (auto simp: partial_tags_def str_in_sublist)

text \<open>
  C4: the rule \<open>~web\<close> is stored under the key \<open>web\<close> with the partial flag; the
  partial-name step emits its tag for the names \<open>web-01\<close> and \<open>new-web\<close>, and emits
  nothing for the name \<open>WEB\<close>. The rule \<open>~Web\<close> is stored under \<open>web\<close> too and emits
  nothing for the name \<open>Web-01\<close>.
\<close>

theorem partial_name_rule_is_case_sensitive:
  "load_tag_rules ''tags.csv''
       [[''Filter'', ''TagKey'', ''TagValue''], [''~web'', ''Application'', ''CRM'']]
     = Inr ex_web_rules
   \<and> load_tag_rules ''tags.csv''
       [[''Filter'', ''TagKey'', ''TagValue''], [''~Web'', ''Application'', ''CRM'']]
     = Inr ex_web_rules
   \<and> partial_tags ex_web_rules (Some ''web-01'') = [\<lparr>Key = Some ''Application'', Value = Some ''CRM''\<rparr>]
   \<and> partial_tags ex_web_rules (Some ''new-web'') = [\<lparr>Key = Some ''Application'', Value = Some ''CRM''\<rparr>]
   \<and> partial_tags ex_web_rules (Some ''WEB'') = []
   \<and> partial_tags ex_web_rules (Some ''Web-01'') = []"
  by code_simp

text \<open>What \<open>get_match_keys\<close> returns, as a set, and that the list has no repetition.\<close>

lemma match_keys_set:
  "set (get_match_keys service subtype arn name)
     = (if truthy arn then {the arn} else {})
       \<union> (if truthy name then {the name} else {})
       \<union> (if truthy subtype then
            {if CHR '':'' \<in> set (lower (the subtype)) then lower (the subtype)
             else lower service @ '':'' @ lower (the subtype)}
          else {})
       \<union> {lower service}"
  by (auto simp: get_match_keys_def set_add_def Let_def)

lemma match_keys_distinct: "distinct (get_match_keys service subtype arn name)"
  by (auto simp: get_match_keys_def set_add_def Let_def)

text \<open>
  C5: for the service \<open>iam\<close>, the resource type \<open>role\<close>, an identifier and a name with
  upper-case letters, \<open>get_match_keys\<close> returns the identifier and the name as they are,
  the type key \<open>iam:role\<close> and the service. The identifier and the name are not
  lower-cased, so the rule written with that very name, stored under its lower-cased
  key, gives no exact match.
\<close>

theorem match_keys_keep_case_of_name_and_arn:
  "get_match_keys ''iam'' (Some ''role'') (Some ''arn:aws:iam::123:role/Admin'') (Some ''Web'')
     = [''arn:aws:iam::123:role/Admin'', ''Web'', ''iam:role'', ''iam'']
   \<and> lower ''Web'' \<noteq> ''Web''
   \<and> lower ''arn:aws:iam::123:role/Admin'' \<noteq> ''arn:aws:iam::123:role/Admin''
   \<and> load_tag_rules ''tags.csv'' [[''Filter'', ''TagKey'', ''TagValue''], [''Web'', ''Owner'', ''Team'']]
       = Inr [(''web'', [\<lparr>Key = Some ''Owner'', Value = Some ''Team'', Partial = False\<rparr>])]
   \<and> exact_tags id [(''web'', [\<lparr>Key = Some ''Owner'', Value = Some ''Team'', Partial = False\<rparr>])]
        (get_match_keys ''iam'' (Some ''role'') (Some ''arn:aws:iam::123:role/Admin'') (Some ''Web''))
       = []"
  by code_simp

section \<open>Loading the rule file\<close>

lemma row_dict_None: "(row_dict fieldnames r c = None) = (c \<notin> set fieldnames)"
proof -
  have "map fst (zip fieldnames (map Some r @ replicate (length fieldnames - length r) None))
      = fieldnames"
    by (simp add: map_fst_zip_take)
  then have "fst ` set (zip fieldnames (map Some r @ replicate (length fieldnames - length r) None))
      = set fieldnames"
    by (metis set_map)
  then show ?thesis
    by (simp add: row_dict_def map_of_eq_None_iff)
qed

lemma load_rows_missing_Filter:
  "''Filter'' \<notin> set fieldnames \<Longrightarrow> \<exists>r\<in>set rows. r \<noteq> []
    \<Longrightarrow> load_rows fieldnames rows tag_map = Inl (KeyError ''Filter'')"
proof (induction rows arbitrary: tag_map)
  case Nil
  then show ?case by simp
next
  case (Cons r rows)
  from Cons.prems(1) have none: "row_dict fieldnames r ''Filter'' = None"
    by (simp add: row_dict_None)
  show ?case
  proof (cases "r = []")
    case True
    with Cons show ?thesis by simp
  next
    case False
    with none show ?thesis by simp
  qed
qed

lemma load_rows_skipped:
  "skipped_line fieldnames r
    \<Longrightarrow> load_rows fieldnames (r # rows) tag_map = load_rows fieldnames rows tag_map"
  by (auto simp: skipped_line_def Let_def split: option.splits)

lemma load_rows_all_skipped:
  "\<forall>r\<in>set rows. skipped_line fieldnames r \<Longrightarrow> load_rows fieldnames rows tag_map = Inr tag_map"
  by (induction rows) (simp_all add: load_rows_skipped del: load_rows.simps(2))

lemma load_rows_short:
  "short_line fieldnames r \<Longrightarrow> load_rows fieldnames (r # rows) tag_map = Inl AttributeError"
  by (simp add: short_line_def)

lemma load_rows_rule_row:
  "rule_row fieldnames r \<Longrightarrow> ''TagKey'' \<notin> set fieldnames \<or> ''TagValue'' \<notin> set fieldnames
    \<Longrightarrow> load_rows fieldnames (r # rows) tag_map
          = Inl (KeyError (if ''TagKey'' \<notin> set fieldnames then ''TagKey'' else ''TagValue''))"
proof -
  assume rr: "rule_row fieldnames r"
    and m: "''TagKey'' \<notin> set fieldnames \<or> ''TagValue'' \<notin> set fieldnames"
  from rr obtain f where f: "r \<noteq> []" "row_dict fieldnames r ''Filter'' = Some (Some f)"
      "strip f \<noteq> []" "\<not> startswith (strip f) ''#''"
    by (cases "row_dict fieldnames r ''Filter''")
       (auto simp: rule_row_def split: option.splits)
  show ?thesis
  proof (cases "''TagKey'' \<in> set fieldnames")
    case True
    with m have v: "row_dict fieldnames r ''TagValue'' = None" by (simp add: row_dict_None)
    from True obtain k where "row_dict fieldnames r ''TagKey'' = Some k"
      using row_dict_None [of fieldnames r "''TagKey''"] by auto
    with f v True show ?thesis by (simp add: Let_def)
  next
    case False
    then have "row_dict fieldnames r ''TagKey'' = None" by (simp add: row_dict_None)
    with f False show ?thesis by (simp add: Let_def)
  qed
qed

lemma line_kinds:
  "''Filter'' \<in> set fieldnames
    \<Longrightarrow> skipped_line fieldnames r \<or> short_line fieldnames r \<or> rule_row fieldnames r"
proof -
  assume "''Filter'' \<in> set fieldnames"
  then have "row_dict fieldnames r ''Filter'' \<noteq> None" by (simp add: row_dict_None)
  then show ?thesis
    by (auto simp: skipped_line_def short_line_def rule_row_def split: option.splits)
qed

lemma rule_row_Filter: "rule_row fieldnames r \<Longrightarrow> ''Filter'' \<in> set fieldnames"
  using row_dict_None [of fieldnames r "''Filter''"]
  by (auto simp: rule_row_def split: option.splits)

lemma load_rows_missing_tag_column:
  assumes m: "''TagKey'' \<notin> set fieldnames \<or> ''TagValue'' \<notin> set fieldnames"
  shows "\<exists>r\<in>set rows. rule_row fieldnames r
    \<Longrightarrow> (load_rows fieldnames rows tag_map
          \<in> {Inl (KeyError (if ''TagKey'' \<notin> set fieldnames then ''TagKey'' else ''TagValue'')),
              Inl AttributeError})
       \<and> ((\<forall>r\<in>set rows. \<not> short_line fieldnames r) \<longrightarrow>
            load_rows fieldnames rows tag_map
              = Inl (KeyError (if ''TagKey'' \<notin> set fieldnames then ''TagKey'' else ''TagValue'')))"
proof (induction rows)
  case Nil
  then show ?case by simp
next
  case (Cons r rows)
  from Cons.prems have fil: "''Filter'' \<in> set fieldnames" by (auto dest: rule_row_Filter)
  from line_kinds [OF fil, of r] consider
    (rule) "rule_row fieldnames r" | (short) "short_line fieldnames r"
    | (skip) "skipped_line fieldnames r" "\<not> rule_row fieldnames r" "\<not> short_line fieldnames r"
    by blast
  then show ?case
  proof cases
    case rule
    from load_rows_rule_row [OF rule m] show ?thesis by simp
  next
    case short
    then show ?thesis by (auto simp: load_rows_short simp del: load_rows.simps(2))
  next
    case skip
    with Cons.prems have "\<exists>r\<in>set rows. rule_row fieldnames r" by simp
    from Cons.IH [OF this] skip show ?thesis
      by (simp add: load_rows_skipped del: load_rows.simps(2))
  qed
qed

text \<open>
  C8, as the code has it. A rule file whose name does not end in \<open>.csv\<close> makes
  \<open>load_tag_rules\<close> exit with status 1. Otherwise: a header without \<open>Filter\<close> makes
  it fail with KeyError \<open>Filter\<close> when the file has a line that is not blank. A header
  without \<open>TagKey\<close> or \<open>TagValue\<close> makes it fail when the file has a rule line: with
  KeyError for the missing column (\<open>TagKey\<close> when that is missing, \<open>TagValue\<close>
  otherwise) or with AttributeError, and with that KeyError when no line is too short to
  have a \<open>Filter\<close> field. A file all of whose lines after the header are passed over
  loads as the empty rule set, whatever its header lacks. Whenever \<open>load_tag_rules\<close>
  fails, \<open>main\<close> ends there with that exception: it has looked up the account and read
  the rule file, and makes no call for the view, the resources, their tags or the plan.
\<close>

theorem rule_file_errors_abort_before_fetch:
  "(\<not> endswith tags_path ''.csv'' \<longrightarrow> load_tag_rules tags_path rule_file = Inl (SystemExit 1))
   \<and> (endswith tags_path ''.csv'' \<and> ''Filter'' \<notin> set fieldnames \<and> (\<exists>r\<in>set rows. r \<noteq> []) \<longrightarrow>
        load_tag_rules tags_path (fieldnames # rows) = Inl (KeyError ''Filter''))
   \<and> (endswith tags_path ''.csv''
        \<and> (''TagKey'' \<notin> set fieldnames \<or> ''TagValue'' \<notin> set fieldnames)
        \<and> (\<exists>r\<in>set rows. rule_row fieldnames r) \<longrightarrow>
        load_tag_rules tags_path (fieldnames # rows)
          \<in> {Inl (KeyError (if ''TagKey'' \<notin> set fieldnames then ''TagKey'' else ''TagValue'')),
              Inl AttributeError})
   \<and> (endswith tags_path ''.csv''
        \<and> (''TagKey'' \<notin> set fieldnames \<or> ''TagValue'' \<notin> set fieldnames)
        \<and> (\<exists>r\<in>set rows. rule_row fieldnames r)
        \<and> (\<forall>r\<in>set rows. \<not> short_line fieldnames r) \<longrightarrow>
        load_tag_rules tags_path (fieldnames # rows)
          = Inl (KeyError (if ''TagKey'' \<notin> set fieldnames then ''TagKey'' else ''TagValue'')))
   \<and> (endswith tags_path ''.csv'' \<and> (\<forall>r\<in>set rows. skipped_line fieldnames r) \<longrightarrow>
        load_tag_rules tags_path (fieldnames # rows) = Inr [])
   \<and> (load_tag_rules tags_path rule_file = Inl e \<longrightarrow>
        main key_order tags_path rule_file view_arn resources region
          = ([GetAccountNumber, LoadTagRules], [], Some e))"
proof (intro conjI impI)
  assume "\<not> endswith tags_path ''.csv''"
  then show "load_tag_rules tags_path rule_file = Inl (SystemExit 1)"
    by (simp add: load_tag_rules_def)
next
  assume "endswith tags_path ''.csv'' \<and> ''Filter'' \<notin> set fieldnames \<and> (\<exists>r\<in>set rows. r \<noteq> [])"
  then show "load_tag_rules tags_path (fieldnames # rows) = Inl (KeyError ''Filter'')"
    by (simp add: load_tag_rules_def load_rows_missing_Filter)
next
  assume a: "endswith tags_path ''.csv''
        \<and> (''TagKey'' \<notin> set fieldnames \<or> ''TagValue'' \<notin> set fieldnames)
        \<and> (\<exists>r\<in>set rows. rule_row fieldnames r)"
  then have "load_rows fieldnames rows []
      \<in> {Inl (KeyError (if ''TagKey'' \<notin> set fieldnames then ''TagKey'' else ''TagValue'')),
          Inl AttributeError}"
    using load_rows_missing_tag_column [of fieldnames rows "[]"] by blast
  with a show "load_tag_rules tags_path (fieldnames # rows)
      \<in> {Inl (KeyError (if ''TagKey'' \<notin> set fieldnames then ''TagKey'' else ''TagValue'')),
          Inl AttributeError}"
    by (simp add: load_tag_rules_def)
next
  assume a: "endswith tags_path ''.csv''
        \<and> (''TagKey'' \<notin> set fieldnames \<or> ''TagValue'' \<notin> set fieldnames)
        \<and> (\<exists>r\<in>set rows. rule_row fieldnames r)
        \<and> (\<forall>r\<in>set rows. \<not> short_line fieldnames r)"
  then have "load_rows fieldnames rows []
      = Inl (KeyError (if ''TagKey'' \<notin> set fieldnames then ''TagKey'' else ''TagValue''))"
    using load_rows_missing_tag_column [of fieldnames rows "[]"] by blast
  with a show "load_tag_rules tags_path (fieldnames # rows)
      = Inl (KeyError (if ''TagKey'' \<notin> set fieldnames then ''TagKey'' else ''TagValue''))"
    by (simp add: load_tag_rules_def)
next
  assume a: "endswith tags_path ''.csv'' \<and> (\<forall>r\<in>set rows. skipped_line fieldnames r)"
  then have "load_rows fieldnames rows [] = Inr []"
    by (simp add: load_rows_all_skipped)
  with a show "load_tag_rules tags_path (fieldnames # rows) = Inr []"
    by (simp add: load_tag_rules_def)
next
  assume "load_tag_rules tags_path rule_file = Inl e"
  then show "main key_order tags_path rule_file view_arn resources region
      = ([GetAccountNumber, LoadTagRules], [], Some e)"
    by (simp add: main_def)
qed

theorem rule_file_errors_abort_before_fetch_witness:
  "\<not> endswith ''tags.txt'' ''.csv''
   \<and> load_tag_rules ''tags.txt'' ex_file = Inl (SystemExit 1)
   \<and> main id ''tags.txt'' ex_file (Some ''view'') ex_resources ''us-west-2''
        = ([GetAccountNumber, LoadTagRules], [], Some (SystemExit 1))
   \<and> rule_row [''Filter'', ''TagValue''] [''ec2'', ''24x7'']
   \<and> load_tag_rules ''tags.csv'' [[''Filter'', ''TagValue''], [''ec2'', ''24x7'']]
        = Inl (KeyError ''TagKey'')
   \<and> main id ''tags.csv'' [[''Filter'', ''TagValue''], [''ec2'', ''24x7'']] (Some ''view'')
        ex_resources ''us-west-2''
        = ([GetAccountNumber, LoadTagRules], [], Some (KeyError ''TagKey''))
   \<and> skipped_line [''Filter'', ''TagValue''] [''# no rule yet'', ''x'']
   \<and> load_tag_rules ''tags.csv'' [[''Filter'', ''TagValue''], [''# no rule yet'', ''x'']] = Inr []"
proof -
  have ext: "\<not> endswith ''tags.txt'' ''.csv''" by code_simp
  have csv: "endswith ''tags.csv'' ''.csv''" by code_simp
  have row: "rule_row [''Filter'', ''TagValue''] [''ec2'', ''24x7'']" by code_simp
  have nshort: "\<not> short_line [''Filter'', ''TagValue''] [''ec2'', ''24x7'']" by code_simp
  have skip: "skipped_line [''Filter'', ''TagValue''] [''# no rule yet'', ''x'']" by code_simp
  have col: "''TagKey'' \<notin> set [''Filter'', ''TagValue'']" by simp
  note t1 = rule_file_errors_abort_before_fetch [where tags_path = "''tags.txt''"
      and rule_file = ex_file and e = "SystemExit 1" and key_order = id
      and view_arn = "Some ''view''" and resources = ex_resources and region = "''us-west-2''"]
  note t2 = rule_file_errors_abort_before_fetch [where tags_path = "''tags.csv''"
      and rule_file = "[[''Filter'', ''TagValue''], [''ec2'', ''24x7'']]"
      and fieldnames = "[''Filter'', ''TagValue'']" and rows = "[[''ec2'', ''24x7'']]"
      and e = "KeyError ''TagKey''" and key_order = id
      and view_arn = "Some ''view''" and resources = ex_resources and region = "''us-west-2''"]
  note t3 = rule_file_errors_abort_before_fetch [where tags_path = "''tags.csv''"
      and fieldnames = "[''Filter'', ''TagValue'']" and rows = "[[''# no rule yet'', ''x'']]"]
  from t1 ext have l1: "load_tag_rules ''tags.txt'' ex_file = Inl (SystemExit 1)" by blast
  with t1 have m1: "main id ''tags.txt'' ex_file (Some ''view'') ex_resources ''us-west-2''
      = ([GetAccountNumber, LoadTagRules], [], Some (SystemExit 1))"
    by blast
  from t2 csv col row nshort
  have "load_tag_rules ''tags.csv'' [[''Filter'', ''TagValue''], [''ec2'', ''24x7'']]
      = Inl (KeyError (if ''TagKey'' \<notin> set [''Filter'', ''TagValue''] then ''TagKey''
                       else ''TagValue''))"
    by simp
  then have key: "load_tag_rules ''tags.csv'' [[''Filter'', ''TagValue''], [''ec2'', ''24x7'']]
      = Inl (KeyError ''TagKey'')"
    by simp
  with t2 have m2: "main id ''tags.csv'' [[''Filter'', ''TagValue''], [''ec2'', ''24x7'']]
      (Some ''view'') ex_resources ''us-west-2''
      = ([GetAccountNumber, LoadTagRules], [], Some (KeyError ''TagKey''))"
    by blast
  from t3 csv skip
  have l3: "load_tag_rules ''tags.csv'' [[''Filter'', ''TagValue''], [''# no rule yet'', ''x'']] = Inr []"
    by simp
  from ext l1 m1 row key m2 skip l3 show ?thesis by blast
qed

text \<open>
  The claim C8 as stated fails: a rule file without the \<open>TagKey\<close> column whose only line
  is a comment loads as the empty rule set, and \<open>main\<close> goes on to fetch the resources
  and write the plan.
\<close>

theorem missing_column_without_rule_line_counterexample:
  "''TagKey'' \<notin> set [''Filter'', ''TagValue'']
   \<and> load_tag_rules ''tags.csv'' [[''Filter'', ''TagValue''], [''# no rule yet'', ''x'']] = Inr []
   \<and> main id ''tags.csv'' [[''Filter'', ''TagValue''], [''# no rule yet'', ''x'']]
        (Some ''view'') ex_resources ''us-west-2''
      = ([GetAccountNumber, LoadTagRules, GetViewArn, GetAllResources, GetTagsForResources,
          WritePlan], [], None)"
  by code_simp

section \<open>The order of the rows\<close>



lemma emit_distinct: "distinct acc \<Longrightarrow> distinct (emit acc xs)"
  by (induction xs arbitrary: acc) auto

lemma remdups_drop_earlier: "x \<in> set bs \<Longrightarrow> remdups (as @ x # bs) = remdups (as @ bs)"
  by (induction as) auto

lemma emit_remdups: "distinct acc \<Longrightarrow> emit acc xs = rev (remdups (rev (acc @ xs)))"
proof (induction xs arbitrary: acc)
  case Nil
  then show ?case by (simp add: distinct_remdups_id)
next
  case (Cons x xs)
  show ?case
  proof (cases "x \<in> set acc")
    case True
    then have "remdups (rev xs @ x # rev acc) = remdups (rev xs @ rev acc)"
      by (intro remdups_drop_earlier) simp
    with True Cons show ?thesis by simp
  next
    case False
    with Cons.prems have "distinct (acc @ [x])" by simp
    from Cons.IH [OF this] False show ?thesis by simp
  qed
qed













end
